theory Spec2Isabelle
  imports Main "HOL-Library.Word"
begin

unbundle bit_operations_syntax

section \<open>Column descriptor: data model\<close>

text \<open>
  The embedding follows \<^verbatim>\<open>be/src/storage/tablet_schema.h\<close>. A C++ member \<^verbatim>\<open>_x\<close> is the
  selector \<open>m_x\<close>; a member function keeps its name, without a leading underscore
  (\<^verbatim>\<open>TabletSchema::mem_usage\<close> is \<open>schema_mem_usage\<close>, next to the column's
  \<open>mem_usage\<close>). The enumerations
  \<^verbatim>\<open>StorageAggregateType\<close> and \<^verbatim>\<open>LogicalType\<close> are declared in other headers; only the
  enumerators named in this header are listed, every other one is its number.
\<close>

datatype StorageAggregateType = STORAGE_AGGREGATE_NONE | STORAGE_AGGREGATE_OTHER nat

datatype LogicalType = TYPE_UNKNOWN | TYPE_OTHER nat

text \<open>
  A \<^verbatim>\<open>std::string\<close> is its bytes and the capacity of its buffer: \<^verbatim>\<open>mem_usage\<close> reads
  \<^verbatim>\<open>capacity()\<close>, which is not determined by the bytes.
\<close>

record std_string =
  str_chars :: string
  str_capacity :: nat

text \<open>
  \<^verbatim>\<open>TabletColumn\<close> owns its \<^verbatim>\<open>ExtraFields\<close> block through a raw pointer that is either
  null or points to a block of its own: an \<open>option\<close>. The block holds a vector of
  \<^verbatim>\<open>TabletColumn\<close>, so the two types are mutually recursive.
\<close>

datatype TabletColumn = TabletColumn
    (m_col_name: string)
    (m_unique_id: "32 word")
    (m_length: "32 word")
    (m_aggregation: StorageAggregateType)
    (m_type: LogicalType)
    (m_index_length: "8 word")
    (m_precision: "8 word")
    (m_scale: "8 word")
    (m_flags: "8 word")
    (m_extra_fields: "ExtraFields option")
and ExtraFields = ExtraFields
    (ef_default_value: std_string)
    (ef_sub_columns: "TabletColumn list")
    (ef_has_default_value: bool)

text \<open>Writes to single members (the C++ assignments \<^verbatim>\<open>_flags = ...\<close> and so on).\<close>

fun put_flags :: "8 word \<Rightarrow> TabletColumn \<Rightarrow> TabletColumn" where
  "put_flags f (TabletColumn n u l a t il p s _ e) = TabletColumn n u l a t il p s f e"

fun put_precision :: "8 word \<Rightarrow> TabletColumn \<Rightarrow> TabletColumn" where
  "put_precision p (TabletColumn n u l a t il _ s f e) = TabletColumn n u l a t il p s f e"

fun put_scale :: "8 word \<Rightarrow> TabletColumn \<Rightarrow> TabletColumn" where
  "put_scale s (TabletColumn n u l a t il p _ f e) = TabletColumn n u l a t il p s f e"

fun put_extra_fields :: "ExtraFields option \<Rightarrow> TabletColumn \<Rightarrow> TabletColumn" where
  "put_extra_fields e (TabletColumn n u l a t il p s f _) = TabletColumn n u l a t il p s f e"

text \<open>
  The default member initialisers of the class: what \<^verbatim>\<open>TabletColumn()\<close> leaves before any
  setter runs.
\<close>

definition TabletColumn_default :: TabletColumn where
  "TabletColumn_default =
     TabletColumn [] 0 0 STORAGE_AGGREGATE_NONE TYPE_UNKNOWN 0 0 0 0 None"

definition unique_id :: "TabletColumn \<Rightarrow> 32 word" where
  "unique_id c = m_unique_id c"

definition name :: "TabletColumn \<Rightarrow> string" where
  "name c = m_col_name c"

section \<open>The flag byte\<close>

definition kIsKeyShift :: "8 word" where "kIsKeyShift = 0"
definition kIsNullableShift :: "8 word" where "kIsNullableShift = 1"
definition kIsBfColumnShift :: "8 word" where "kIsBfColumnShift = 2"
definition kHasBitmapIndexShift :: "8 word" where "kHasBitmapIndexShift = 3"
definition kHasPrecisionShift :: "8 word" where "kHasPrecisionShift = 4"
definition kHasScaleShift :: "8 word" where "kHasScaleShift = 5"
definition kHasAutoIncrementShift :: "8 word" where "kHasAutoIncrementShift = 6"
definition kIsSortKey :: "8 word" where "kIsSortKey = 7"

text \<open>
  \<^verbatim>\<open>_flags |= (1 << pos)\<close> and \<^verbatim>\<open>_flags &= ~(1 << pos)\<close>: the byte is promoted to a
  32-bit \<^verbatim>\<open>int\<close>, combined with the shifted one, and the result is cut back to a byte.
  \<^verbatim>\<open>_flags & (1 << pos)\<close> converted to \<^verbatim>\<open>bool\<close> is the test for non-zero. The
  \<^verbatim>\<open>assert(pos < 8)\<close> is compiled out in release builds; every caller passes one of the
  eight constants above.
\<close>

definition set_flag_bits :: "8 word \<Rightarrow> bool \<Rightarrow> 8 word \<Rightarrow> 8 word" where
  "set_flag_bits pos v f =
     (if v then ucast ((ucast f :: 32 word) OR push_bit (unat pos) 1)
      else ucast ((ucast f :: 32 word) AND NOT (push_bit (unat pos) 1)))"

definition check_flag_bits :: "8 word \<Rightarrow> 8 word \<Rightarrow> bool" where
  "check_flag_bits pos f = ((ucast f :: 32 word) AND push_bit (unat pos) 1 \<noteq> 0)"

definition set_flag :: "8 word \<Rightarrow> bool \<Rightarrow> TabletColumn \<Rightarrow> TabletColumn" where
  "set_flag pos v c = put_flags (set_flag_bits pos v (m_flags c)) c"

definition check_flag :: "8 word \<Rightarrow> TabletColumn \<Rightarrow> bool" where
  "check_flag pos c = check_flag_bits pos (m_flags c)"

definition is_key :: "TabletColumn \<Rightarrow> bool" where
  "is_key c = check_flag kIsKeyShift c"

definition set_is_key :: "bool \<Rightarrow> TabletColumn \<Rightarrow> TabletColumn" where
  "set_is_key v c = set_flag kIsKeyShift v c"

definition is_nullable :: "TabletColumn \<Rightarrow> bool" where
  "is_nullable c = check_flag kIsNullableShift c"

definition set_is_nullable :: "bool \<Rightarrow> TabletColumn \<Rightarrow> TabletColumn" where
  "set_is_nullable v c = set_flag kIsNullableShift v c"

definition is_auto_increment :: "TabletColumn \<Rightarrow> bool" where
  "is_auto_increment c = check_flag kHasAutoIncrementShift c"

definition set_is_auto_increment :: "bool \<Rightarrow> TabletColumn \<Rightarrow> TabletColumn" where
  "set_is_auto_increment v c = set_flag kHasAutoIncrementShift v c"

definition is_bf_column :: "TabletColumn \<Rightarrow> bool" where
  "is_bf_column c = check_flag kIsBfColumnShift c"

definition set_is_bf_column :: "bool \<Rightarrow> TabletColumn \<Rightarrow> TabletColumn" where
  "set_is_bf_column v c = set_flag kIsBfColumnShift v c"

definition has_bitmap_index :: "TabletColumn \<Rightarrow> bool" where
  "has_bitmap_index c = check_flag kHasBitmapIndexShift c"

definition set_has_bitmap_index :: "bool \<Rightarrow> TabletColumn \<Rightarrow> TabletColumn" where
  "set_has_bitmap_index v c = set_flag kHasBitmapIndexShift v c"

definition is_sort_key :: "TabletColumn \<Rightarrow> bool" where
  "is_sort_key c = check_flag kIsSortKey c"

definition set_is_sort_key :: "bool \<Rightarrow> TabletColumn \<Rightarrow> TabletColumn" where
  "set_is_sort_key v c = set_flag kIsSortKey v c"

definition has_precision :: "TabletColumn \<Rightarrow> bool" where
  "has_precision c = check_flag kHasPrecisionShift c"

definition precision :: "TabletColumn \<Rightarrow> 8 word" where
  "precision c = m_precision c"

definition set_precision :: "8 word \<Rightarrow> TabletColumn \<Rightarrow> TabletColumn" where
  "set_precision p c = set_flag kHasPrecisionShift True (put_precision p c)"

definition has_scale :: "TabletColumn \<Rightarrow> bool" where
  "has_scale c = check_flag kHasScaleShift c"

definition scale :: "TabletColumn \<Rightarrow> 8 word" where
  "scale c = m_scale c"

definition set_scale :: "8 word \<Rightarrow> TabletColumn \<Rightarrow> TabletColumn" where
  "set_scale s c = set_flag kHasScaleShift True (put_scale s c)"

text \<open>
  The eight flag accessors in the order of their bit positions, and the values they
  return on one column.
\<close>

definition flag_accessors :: "(TabletColumn \<Rightarrow> bool) list" where
  "flag_accessors =
     [is_key, is_nullable, is_bf_column, has_bitmap_index,
      has_precision, has_scale, is_auto_increment, is_sort_key]"

definition flag_values :: "TabletColumn \<Rightarrow> bool list" where
  "flag_values c = map (\<lambda>acc. acc c) flag_accessors"

section \<open>Extended attributes\<close>

text \<open>
  Dereferencing a null pointer and indexing a vector outside its range are undefined
  behaviour in the source. The model makes both a fault value, so that every dereference
  the source performs is a branch that can be shown to be taken or not.
\<close>

datatype fault = NullPointerDereference | IndexOutOfRange

definition deref :: "'a option \<Rightarrow> fault + 'a" where
  "deref p = (case p of None \<Rightarrow> Inl NullPointerDereference | Some x \<Rightarrow> Inr x)"

text \<open>
  What the header leaves to the compiler and the standard library: the two
  \<^verbatim>\<open>sizeof\<close> values and the capacity of a default-constructed \<^verbatim>\<open>std::string\<close>
  (the standard only asks \<^verbatim>\<open>capacity() >= size()\<close>; with a small-string buffer it is
  the size of that buffer, 15 in libstdc++ and 22 in libc++), and the capacity a string
  has after a move assignment \<^verbatim>\<open>dest = std::move(src)\<close>, given the destination before
  and the source. The standard fixes the bytes of the result and not its capacity:
  libstdc++ copies a source that lives in its small-string buffer into the buffer the
  destination already has, and takes over the buffer of any other source.
\<close>

record platform =
  sizeof_TabletColumn :: nat
  sizeof_TabletSchema :: nat
  empty_string_capacity :: nat
  move_assigned_capacity :: "std_string \<Rightarrow> std_string \<Rightarrow> nat"

text \<open>\<^verbatim>\<open>dest = std::move(src)\<close> on two strings: the bytes of the source, the capacity of the platform.\<close>

definition move_assign :: "platform \<Rightarrow> std_string \<Rightarrow> std_string \<Rightarrow> std_string" where
  "move_assign P dest src =
     \<lparr>str_chars = str_chars src, str_capacity = move_assigned_capacity P dest src\<rparr>"

text \<open>\<^verbatim>\<open>inline static const std::string kEmptyDefaultValue;\<close>\<close>

definition kEmptyDefaultValue :: "platform \<Rightarrow> std_string" where
  "kEmptyDefaultValue P = \<lparr>str_chars = [], str_capacity = empty_string_capacity P\<rparr>"

definition has_default_value :: "TabletColumn \<Rightarrow> fault + bool" where
  "has_default_value c =
     (if m_extra_fields c \<noteq> None
      then (case deref (m_extra_fields c) of Inl e \<Rightarrow> Inl e
            | Inr x \<Rightarrow> Inr (ef_has_default_value x))
      else Inr False)"

definition default_value :: "platform \<Rightarrow> TabletColumn \<Rightarrow> fault + std_string" where
  "default_value P c =
     (if m_extra_fields c \<noteq> None
      then (case deref (m_extra_fields c) of Inl e \<Rightarrow> Inl e
            | Inr x \<Rightarrow> Inr (ef_default_value x))
      else Inr (kEmptyDefaultValue P))"

text \<open>\<^verbatim>\<open>new ExtraFields()\<close>: an empty string, no sub-columns, the flag unset.\<close>

definition ExtraFields_default :: "platform \<Rightarrow> ExtraFields" where
  "ExtraFields_default P = ExtraFields (kEmptyDefaultValue P) [] False"

definition get_or_alloc_extra_fields :: "platform \<Rightarrow> TabletColumn \<Rightarrow> TabletColumn" where
  "get_or_alloc_extra_fields P c =
     (if m_extra_fields c = None then put_extra_fields (Some (ExtraFields_default P)) c else c)"

definition set_default_value :: "platform \<Rightarrow> std_string \<Rightarrow> TabletColumn \<Rightarrow> fault + TabletColumn" where
  "set_default_value P v c =
     (let c' = get_or_alloc_extra_fields P c in
      case deref (m_extra_fields c') of Inl e \<Rightarrow> Inl e
      | Inr ext \<Rightarrow>
          Inr (put_extra_fields
                 (Some (ExtraFields (move_assign P (ef_default_value ext) v)
                          (ef_sub_columns ext) True)) c'))"

text \<open>
  Sizes and indices are natural numbers: a vector of \<^verbatim>\<open>TabletColumn\<close> stays far below
  the \<open>2^31\<close> elements at which the \<^verbatim>\<open>uint32_t\<close> result of \<^verbatim>\<open>subcolumn_count\<close> or the
  \<^verbatim>\<open>int\<close> counter of the loop in \<^verbatim>\<open>mem_usage\<close> would wrap.
\<close>

definition subcolumn_count :: "TabletColumn \<Rightarrow> fault + nat" where
  "subcolumn_count c =
     (if m_extra_fields c \<noteq> None
      then (case deref (m_extra_fields c) of Inl e \<Rightarrow> Inl e
            | Inr x \<Rightarrow> Inr (length (ef_sub_columns x)))
      else Inr 0)"

text \<open>\<^verbatim>\<open>subcolumn(i)\<close> is \<^verbatim>\<open>_extra_fields->sub_columns[i]\<close>: no test of the pointer or of \<open>i\<close>.\<close>

definition subcolumn :: "TabletColumn \<Rightarrow> nat \<Rightarrow> fault + TabletColumn" where
  "subcolumn c i =
     (case deref (m_extra_fields c) of Inl e \<Rightarrow> Inl e
      | Inr x \<Rightarrow>
          (if i < length (ef_sub_columns x) then Inr (ef_sub_columns x ! i)
           else Inl IndexOutOfRange))"

text \<open>
  \<^verbatim>\<open>TabletColumn::mem_usage\<close>. The \<^verbatim>\<open>int64_t\<close> accumulator is an unbounded integer: the
  bytes of descriptors in one process stay far below \<open>2^63\<close>. The loop of the source runs
  over the index \<open>i\<close> and calls \<^verbatim>\<open>subcolumn_count()\<close> and \<^verbatim>\<open>subcolumn(i)\<close> on every round.
\<close>

function mem_usage :: "platform \<Rightarrow> TabletColumn \<Rightarrow> fault + int"
  and mem_usage_loop :: "platform \<Rightarrow> TabletColumn \<Rightarrow> nat \<Rightarrow> int \<Rightarrow> fault + int" where
  "mem_usage P c =
     (case default_value P c of Inl e \<Rightarrow> Inl e
      | Inr d \<Rightarrow>
          mem_usage_loop P c 0
            (int (sizeof_TabletColumn P) + int (length (m_col_name c)) + int (str_capacity d)))"
| "mem_usage_loop P c i acc =
     (case subcolumn_count c of Inl e \<Rightarrow> Inl e
      | Inr n \<Rightarrow>
          (if i < n
           then (case subcolumn c i of Inl e \<Rightarrow> Inl e
                 | Inr sub \<Rightarrow>
                     (case mem_usage P sub of Inl e \<Rightarrow> Inl e
                      | Inr m \<Rightarrow> mem_usage_loop P c (i + 1) (acc + m)))
           else Inr acc))"
  by pat_completeness auto
termination
proof -
  have sub_smaller: "size sub < size c" if r: "subcolumn c i = Inr sub" for c i sub
  proof (cases c)
    case (TabletColumn n u l a t il p s f e)
    from r obtain x where x: "e = Some x" "i < length (ef_sub_columns x)"
        "sub = ef_sub_columns x ! i"
      using TabletColumn
      by (auto simp: subcolumn_def deref_def split: option.splits if_splits)
    obtain d subs h where e: "x = ExtraFields d subs h"
      by (cases x)
    from x(2,3) e have "sub \<in> set subs"
      by simp
    then have "size sub \<le> size_list size subs"
      by (rule size_list_estimation') simp
    then show ?thesis
      using TabletColumn x(1) e by simp
  qed
  show ?thesis
    apply (relation "inv_image (less_than <*lex*> less_than <*lex*> less_than)
       (\<lambda>x. case x of Inl (P, c) \<Rightarrow> (size c, 1::nat, 0::nat)
            | Inr (P, c, i, acc) \<Rightarrow>
                (size c, 0, (case subcolumn_count c of Inr n \<Rightarrow> n - i | Inl _ \<Rightarrow> 0)))")
       apply (auto simp: sub_smaller)
    done
qed

declare mem_usage.simps [simp del] mem_usage_loop.simps [simp del]

text \<open>The number \<^verbatim>\<open>mem_usage\<close> returns, once it is known to return one.\<close>

definition column_bytes :: "platform \<Rightarrow> TabletColumn \<Rightarrow> int" where
  "column_bytes P c = (case mem_usage P c of Inl _ \<Rightarrow> 0 | Inr m \<Rightarrow> m)"

section \<open>Schema descriptor\<close>

text \<open>
  The members of \<^verbatim>\<open>TabletSchema\<close>, without the back pointer to the schema map, the
  \<^verbatim>\<open>double\<close> \<^verbatim>\<open>_bf_fpp\<close>, the compression type and the lazily built execution schema with
  its once-flag: no function of the header modelled here reads or writes them.
  \<^verbatim>\<open>ColumnId\<close> is declared in another header; it is an unsigned integer that is only ever
  used as an index into \<^verbatim>\<open>_cols\<close>, a natural number here.
\<close>

type_synonym ColumnId = nat

record TabletSchema =
  m_id :: "64 word"
  m_cols :: "TabletColumn list"
  m_num_rows_per_row_block :: "64 word"
  m_next_column_unique_id :: "64 word"
  m_num_columns :: "32 word"
  m_num_key_columns :: "16 word"
  m_num_short_key_columns :: "16 word"
  m_sort_key_idxes :: "ColumnId list"
  m_sort_key_idxes_set :: "ColumnId set"
  m_keys_type :: "8 word"
  m_field_id_to_index :: "32 word \<rightharpoonup> 32 word"
  m_has_bf_fpp :: bool
  m_schema_version :: "32 word"

definition sort_key_idxes :: "TabletSchema \<Rightarrow> ColumnId list" where
  "sort_key_idxes s = m_sort_key_idxes s"

definition num_columns :: "TabletSchema \<Rightarrow> nat" where
  "num_columns s = length (m_cols s)"

text \<open>
  The two loops of \<^verbatim>\<open>set_sort_key_idxes\<close>: \<^verbatim>\<open>_cols[idx].set_is_sort_key(v)\<close> for every
  \<open>idx\<close> of a list, in order. \<^verbatim>\<open>_cols[idx]\<close> is unchecked.
\<close>

fun set_is_sort_key_each ::
  "bool \<Rightarrow> ColumnId list \<Rightarrow> TabletColumn list \<Rightarrow> fault + TabletColumn list" where
  "set_is_sort_key_each v [] cols = Inr cols"
| "set_is_sort_key_each v (idx # rest) cols =
     (if idx < length cols
      then set_is_sort_key_each v rest (cols[idx := set_is_sort_key v (cols ! idx)])
      else Inl IndexOutOfRange)"

definition set_sort_key_idxes :: "ColumnId list \<Rightarrow> TabletSchema \<Rightarrow> fault + TabletSchema" where
  "set_sort_key_idxes xs s =
     (case set_is_sort_key_each False (m_sort_key_idxes s) (m_cols s) of Inl e \<Rightarrow> Inl e
      | Inr cleared \<Rightarrow>
          (case set_is_sort_key_each True xs cleared of Inl e \<Rightarrow> Inl e
           | Inr marked \<Rightarrow> Inr (s\<lparr>m_cols := marked, m_sort_key_idxes := xs\<rparr>)))"

text \<open>\<^verbatim>\<open>TabletSchema::mem_usage\<close>: the range-for over \<^verbatim>\<open>_cols\<close>.\<close>

fun mem_usage_cols :: "platform \<Rightarrow> TabletColumn list \<Rightarrow> int \<Rightarrow> fault + int" where
  "mem_usage_cols P [] acc = Inr acc"
| "mem_usage_cols P (col # rest) acc =
     (case mem_usage P col of Inl e \<Rightarrow> Inl e
      | Inr m \<Rightarrow> mem_usage_cols P rest (acc + m))"

definition schema_mem_usage :: "platform \<Rightarrow> TabletSchema \<Rightarrow> fault + int" where
  "schema_mem_usage P s = mem_usage_cols P (m_cols s) (int (sizeof_TabletSchema P))"

section \<open>Member functions whose bodies are outside the header\<close>

text \<open>
  Modelled from the spec: the body of \<^verbatim>\<open>TabletSchema::field_index(int32_t)\<close> is not in
  the header, which only declares it next to the member \<^verbatim>\<open>_field_id_to_index\<close>. Section
  4.2: it "returns the column's ordinal or a not-found sentinel via the unique-id index".
  The spec does not give the sentinel's value; \<open>-1\<close> is taken, which no ordinal equals.
\<close>

text \<open>
  Modelled from the spec: the "not-found sentinel" of section 4.2, whose value the spec
  does not give.
\<close>

definition kFieldNotFound :: "32 word" where
  "kFieldNotFound = - 1"

text \<open>
  Modelled from the spec: \<^verbatim>\<open>field_index(unique_id)\<close>, a lookup in the unique-id index
  that gives the sentinel for an id the index does not hold.
\<close>

definition field_index :: "TabletSchema \<Rightarrow> 32 word \<Rightarrow> 32 word" where
  "field_index s col_unique_id =
     (case m_field_id_to_index s col_unique_id of None \<Rightarrow> kFieldNotFound | Some i \<Rightarrow> i)"

text \<open>
  Modelled from the spec: the code that fills \<^verbatim>\<open>_field_id_to_index\<close> (decode,
  \<^verbatim>\<open>append_column\<close>) is not in the header. Section 3: "The unique-id-to-ordinal map is
  exactly the inverse of \<open>column(i).unique_id()\<close> for all valid i; unique ids ... must be
  unique within one schema"; section 4.2: decode "builds the unique-id index, validates no
  duplicate unique ids". The index is filled column by column, each unique id stored with
  the ordinal of its column.
\<close>

fun index_columns ::
  "TabletColumn list \<Rightarrow> nat \<Rightarrow> (32 word \<rightharpoonup> 32 word) \<Rightarrow> (32 word \<rightharpoonup> 32 word)" where
  "index_columns [] i m = m"
| "index_columns (c # cs) i m = index_columns cs (i + 1) (m(unique_id c \<mapsto> word_of_nat i))"

text \<open>
  Modelled from the spec: what decode validates, "no duplicate unique ids" among the
  columns of one schema.
\<close>

definition unique_ids_valid :: "TabletColumn list \<Rightarrow> bool" where
  "unique_ids_valid cols = distinct (map unique_id cols)"

text \<open>
  Modelled from the spec: the bodies of the two projections \<^verbatim>\<open>TabletSchema::create\<close>
  (by ordinals) and \<^verbatim>\<open>TabletSchema::create_with_uid\<close> (by unique ids) are not in the
  header. Section 4.2: "build a new schema containing exactly those columns in the given
  order. Recompute \<open>num_key_columns\<close> from the projected columns' key flags. Recompute the
  sort-key list: keep only sort-key ordinals whose underlying column survived the
  projection, remapped to new ordinals, in their original relative order; rebuild the
  unique-id index accordingly"; by unique id it is the "same as above but selection is by
  column unique id". Section 7: a projection that "names a column ordinal or unique id that
  does not exist in the base schema" fails.
\<close>

text \<open>
  Modelled from the spec: the new ordinal of a base column, its (first) position in the
  selection, if it is selected at all.
\<close>

fun new_ordinal :: "ColumnId \<Rightarrow> ColumnId list \<Rightarrow> ColumnId option" where
  "new_ordinal k [] = None"
| "new_ordinal k (x # xs) = (if x = k then Some 0 else map_option Suc (new_ordinal k xs))"

text \<open>
  Modelled from the spec: the recomputed sort-key list. The base's sort-key ordinals are
  visited in their order; one whose column is not selected is dropped, every other one is
  replaced by the new ordinal of its column.
\<close>

fun remap_sort_key_idxes :: "ColumnId list \<Rightarrow> ColumnId list \<Rightarrow> ColumnId list" where
  "remap_sort_key_idxes column_indexes [] = []"
| "remap_sort_key_idxes column_indexes (k # ks) =
     (case new_ordinal k column_indexes of
        None \<Rightarrow> remap_sort_key_idxes column_indexes ks
      | Some j \<Rightarrow> j # remap_sort_key_idxes column_indexes ks)"

text \<open>
  Modelled from the spec: projection by an ordered list of column ordinals. It fails when
  an ordinal does not exist in the base schema; otherwise the columns, the column counts,
  the sort-key list with its set view and the unique-id index are those of the selected
  columns, and everything else is the base's.
\<close>

definition create :: "TabletSchema \<Rightarrow> ColumnId list \<Rightarrow> TabletSchema option" where
  "create base column_indexes =
     (if list_all (\<lambda>i. i < num_columns base) column_indexes
      then
        (let cols = map (\<lambda>i. m_cols base ! i) column_indexes;
             keys = remap_sort_key_idxes column_indexes (m_sort_key_idxes base)
         in Some (base\<lparr>m_cols := cols,
                       m_num_columns := word_of_nat (length cols),
                       m_num_key_columns := word_of_nat (length (filter is_key cols)),
                       m_sort_key_idxes := keys,
                       m_sort_key_idxes_set := set keys,
                       m_field_id_to_index := index_columns cols 0 Map.empty\<rparr>))
      else None)"

text \<open>
  Modelled from the spec: projection by a list of unique ids. Each id is looked up with
  \<open>field_index\<close>; an id that is not found fails the projection, and the ordinals found
  are projected as above.
\<close>

fun resolve_unique_ids :: "TabletSchema \<Rightarrow> 32 word list \<Rightarrow> ColumnId list option" where
  "resolve_unique_ids base [] = Some []"
| "resolve_unique_ids base (u # us) =
     (if field_index base u = kFieldNotFound then None
      else map_option ((#) (unat (field_index base u))) (resolve_unique_ids base us))"

definition create_with_uid :: "TabletSchema \<Rightarrow> 32 word list \<Rightarrow> TabletSchema option" where
  "create_with_uid base unique_column_ids =
     (case resolve_unique_ids base unique_column_ids of
        None \<Rightarrow> None
      | Some column_indexes \<Rightarrow> create base column_indexes)"

section \<open>Example inputs\<close>

text \<open>
  A platform with the empty-string capacity and the move assignment of libstdc++ (the
  two \<^verbatim>\<open>sizeof\<close> values are only examples), and columns and schemas for the
  evaluations below. A libstdc++ string lives in its small-string buffer exactly when its
  capacity is 15.
\<close>

definition example_platform :: platform where
  "example_platform =
     \<lparr>sizeof_TabletColumn = 40, sizeof_TabletSchema = 240, empty_string_capacity = 15,
      move_assigned_capacity =
        (\<lambda>dest src. if str_capacity src \<le> 15 then str_capacity dest else str_capacity src)\<rparr>"

definition example_string :: std_string where
  "example_string = \<lparr>str_chars = ''0'', str_capacity = 15\<rparr>"

text \<open>A string of 20 bytes in a heap buffer of 100.\<close>

definition example_long_string :: std_string where
  "example_long_string = \<lparr>str_chars = replicate 20 (CHR ''x''), str_capacity = 100\<rparr>"

definition column_named :: "string \<Rightarrow> 32 word \<Rightarrow> TabletColumn" where
  "column_named n u = TabletColumn n u 0 STORAGE_AGGREGATE_NONE TYPE_UNKNOWN 0 0 0 0 None"

definition column_with_default :: TabletColumn where
  "column_with_default =
     TabletColumn [] 0 0 STORAGE_AGGREGATE_NONE TYPE_UNKNOWN 0 0 0 0
       (Some (ExtraFields example_string [] True))"

definition column_with_subcolumn :: TabletColumn where
  "column_with_subcolumn =
     TabletColumn ''s'' 0 0 STORAGE_AGGREGATE_NONE TYPE_UNKNOWN 0 0 0 0
       (Some (ExtraFields (kEmptyDefaultValue example_platform) [column_named ''f'' 1] False))"

definition schema_of ::
  "TabletColumn list \<Rightarrow> ColumnId list \<Rightarrow> ColumnId set \<Rightarrow> TabletSchema" where
  "schema_of cols keys key_set =
     \<lparr>m_id = 0, m_cols = cols, m_num_rows_per_row_block = 0, m_next_column_unique_id = 0,
      m_num_columns = word_of_nat (length cols),
      m_num_key_columns = word_of_nat (length (filter is_key cols)),
      m_num_short_key_columns = 0, m_sort_key_idxes = keys, m_sort_key_idxes_set = key_set,
      m_keys_type = 0, m_field_id_to_index = index_columns cols 0 Map.empty,
      m_has_bf_fpp = False, m_schema_version = - 1\<rparr>"

text \<open>One column that carries the is-sort-key flag, and an empty sort-key list.\<close>

definition stale_flag_schema :: TabletSchema where
  "stale_flag_schema = schema_of [set_is_sort_key True (column_named ''a'' 1)] [] {}"

text \<open>Two columns, the first one the only sort key: flag, list and set agree.\<close>

definition two_column_schema :: TabletSchema where
  "two_column_schema =
     schema_of [set_is_sort_key True (column_named ''a'' 1), column_named ''b'' 2] [0] {0}"

text \<open>The schema \<open>[A(key), B, C(sort key)]\<close> of section 8 of the spec.\<close>

definition abc_schema :: TabletSchema where
  "abc_schema =
     schema_of
       [set_is_key True (column_named ''A'' 10), column_named ''B'' 20,
        set_is_sort_key True (column_named ''C'' 30)] [2] {2}"

section \<open>Supporting lemmas\<close>

subsection \<open>Bits of the flag byte\<close>

lemma check_flag_bits_bit: "unat pos < 8 \<Longrightarrow> check_flag_bits pos f = bit f (unat pos)"
  unfolding check_flag_bits_def
  by (simp add: and_exp_eq_0_iff_not_bit bit_ucast_iff)

lemma set_flag_bits_bit:
  "unat pos < 8 \<Longrightarrow> bit (set_flag_bits pos v f) n = (if n = unat pos then v else bit f n)"
  unfolding set_flag_bits_def
  by (auto simp add: bit_simps dest: bit_imp_le_length)

lemma check_set_flag_bits:
  "unat p < 8 \<Longrightarrow> unat q < 8 \<Longrightarrow>
   check_flag_bits q (set_flag_bits p v f) = (if unat q = unat p then v else check_flag_bits q f)"
  by (simp add: check_flag_bits_bit set_flag_bits_bit)

lemma m_flags_put_flags: "m_flags (put_flags f c) = f"
  by (cases c) simp

lemma check_flag_put_precision: "check_flag q (put_precision p c) = check_flag q c"
  by (cases c) (simp add: check_flag_def)

lemma check_flag_put_scale: "check_flag q (put_scale p c) = check_flag q c"
  by (cases c) (simp add: check_flag_def)

lemma check_set_flag:
  "unat p < 8 \<Longrightarrow> unat q < 8 \<Longrightarrow>
   check_flag q (set_flag p v c) = (if unat q = unat p then v else check_flag q c)"
  by (simp add: check_flag_def set_flag_def m_flags_put_flags check_set_flag_bits)

lemmas shift_defs = kIsKeyShift_def kIsNullableShift_def kIsBfColumnShift_def kHasBitmapIndexShift_def
  kHasPrecisionShift_def kHasScaleShift_def kHasAutoIncrementShift_def kIsSortKey_def

lemmas flag_accessor_defs = is_key_def is_nullable_def is_bf_column_def has_bitmap_index_def has_precision_def
  has_scale_def is_auto_increment_def is_sort_key_def





subsection \<open>Extended attributes and \<^verbatim>\<open>mem_usage\<close>\<close>

lemma default_value_total:
  "default_value P c =
     Inr (case m_extra_fields c of None \<Rightarrow> kEmptyDefaultValue P | Some x \<Rightarrow> ef_default_value x)"
  by (simp add: default_value_def deref_def split: option.splits)

lemma has_default_value_total:
  "has_default_value c =
     Inr (case m_extra_fields c of None \<Rightarrow> False | Some x \<Rightarrow> ef_has_default_value x)"
  by (simp add: has_default_value_def deref_def split: option.splits)

lemma size_ef_sub_columns:
  "i < length (ef_sub_columns x) \<Longrightarrow> size (ef_sub_columns x ! i) < size x"
proof (cases x)
  case (ExtraFields d subs h)
  assume "i < length (ef_sub_columns x)"
  then have "subs ! i \<in> set subs"
    using ExtraFields by simp
  then have "size (subs ! i) \<le> size_list size subs"
    by (rule size_list_estimation') simp
  then show ?thesis
    using ExtraFields by simp
qed

lemma subcolumn_size: "subcolumn c i = Inr sub \<Longrightarrow> size sub < size c"
proof (cases c)
  case (TabletColumn n u l a t il p s f e)
  assume r: "subcolumn c i = Inr sub"
  then obtain x where x: "e = Some x" "i < length (ef_sub_columns x)" "sub = ef_sub_columns x ! i"
    using TabletColumn
    by (auto simp: subcolumn_def deref_def split: option.splits if_splits)
  have "size sub < size x"
    using x size_ef_sub_columns by simp
  then show ?thesis
    using TabletColumn x by simp
qed

lemma subcolumn_count_total:
  "subcolumn_count c =
     Inr (case m_extra_fields c of None \<Rightarrow> 0 | Some x \<Rightarrow> length (ef_sub_columns x))"
  by (simp add: subcolumn_count_def deref_def split: option.splits)

lemma subcolumn_Some:
  "m_extra_fields c = Some x \<Longrightarrow> i < length (ef_sub_columns x) \<Longrightarrow>
   subcolumn c i = Inr (ef_sub_columns x ! i)"
  by (simp add: subcolumn_def deref_def)

lemma mem_usage_loop_None:
  "m_extra_fields c = None \<Longrightarrow> mem_usage_loop P c i acc = Inr acc"
  by (subst mem_usage_loop.simps) (simp add: subcolumn_count_total)

lemma mem_usage_start:
  "mem_usage P c =
     mem_usage_loop P c 0
       (int (sizeof_TabletColumn P) + int (length (name c)) +
        int (str_capacity
          (case m_extra_fields c of None \<Rightarrow> kEmptyDefaultValue P
           | Some x \<Rightarrow> ef_default_value x)))"
  by (subst mem_usage.simps) (simp add: default_value_total name_def)

lemma mem_usage_loop_Some:
  assumes x: "m_extra_fields c = Some x"
    and subs: "\<And>sub. sub \<in> set (ef_sub_columns x) \<Longrightarrow> mem_usage P sub = Inr (column_bytes P sub)"
  shows "mem_usage_loop P c i acc =
           Inr (acc + sum_list (map (column_bytes P) (drop i (ef_sub_columns x))))"
proof (induction "length (ef_sub_columns x) - i" arbitrary: i acc)
  case 0
  then show ?case
    by (subst mem_usage_loop.simps) (simp add: subcolumn_count_total x)
next
  case (Suc k)
  then have i: "i < length (ef_sub_columns x)"
    by simp
  have k: "k = length (ef_sub_columns x) - (i + 1)"
    using Suc.hyps(2) by simp
  have step: "mem_usage_loop P c (i + 1) (acc + column_bytes P (ef_sub_columns x ! i)) =
      Inr (acc + column_bytes P (ef_sub_columns x ! i)
           + sum_list (map (column_bytes P) (drop (i + 1) (ef_sub_columns x))))"
    by (rule Suc.hyps(1) [OF k])
  have d: "drop i (ef_sub_columns x) = ef_sub_columns x ! i # drop (i + 1) (ef_sub_columns x)"
    using i by (simp add: Cons_nth_drop_Suc)
  have m: "mem_usage P (ef_sub_columns x ! i) = Inr (column_bytes P (ef_sub_columns x ! i))"
    using i by (intro subs) simp
  show ?case
    apply (subst mem_usage_loop.simps)
    apply (simp only: subcolumn_count_total x option.case sum.case i if_True
        subcolumn_Some [OF x i] m step d)
    apply simp
    done
qed

lemma mem_usage_total: "mem_usage P c = Inr (column_bytes P c)"
proof (induction c rule: measure_induct_rule [of size])
  case (less c)
  have "\<exists>m. mem_usage P c = Inr m"
  proof (cases "m_extra_fields c")
    case None
    then show ?thesis
      by (simp add: mem_usage_start mem_usage_loop_None)
  next
    case (Some x)
    have "mem_usage P sub = Inr (column_bytes P sub)" if "sub \<in> set (ef_sub_columns x)" for sub
    proof -
      from that obtain i where "i < length (ef_sub_columns x)" "sub = ef_sub_columns x ! i"
        unfolding in_set_conv_nth by blast
      then have "subcolumn c i = Inr sub"
        using Some by (simp add: subcolumn_Some)
      then have "size sub < size c"
        by (rule subcolumn_size)
      then show ?thesis
        by (rule less.IH)
    qed
    then show ?thesis
      using Some by (simp add: mem_usage_start mem_usage_loop_Some [OF Some])
  qed
  then show ?case
    by (auto simp: column_bytes_def)
qed

lemma column_bytes_unfold:
  "column_bytes P c =
     int (sizeof_TabletColumn P) + int (length (name c)) +
     (case m_extra_fields c of
        None \<Rightarrow> int (empty_string_capacity P)
      | Some x \<Rightarrow> int (str_capacity (ef_default_value x))
                 + sum_list (map (column_bytes P) (ef_sub_columns x)))"
proof -
  have "Inr (column_bytes P c) = mem_usage P c"
    by (simp add: mem_usage_total)
  also have "\<dots> = Inr (int (sizeof_TabletColumn P) + int (length (name c)) +
     (case m_extra_fields c of
        None \<Rightarrow> int (empty_string_capacity P)
      | Some x \<Rightarrow> int (str_capacity (ef_default_value x))
                 + sum_list (map (column_bytes P) (ef_sub_columns x))))"
  proof (cases "m_extra_fields c")
    case None
    then show ?thesis
      by (simp add: mem_usage_start mem_usage_loop_None kEmptyDefaultValue_def)
  next
    case (Some x)
    then show ?thesis
      by (simp add: mem_usage_start mem_usage_loop_Some [OF Some mem_usage_total])
  qed
  finally show ?thesis
    by simp
qed

lemma mem_usage_cols_total:
  "mem_usage_cols P cols acc = Inr (acc + sum_list (map (column_bytes P) cols))"
  by (induction cols arbitrary: acc) (simp_all add: mem_usage_total)


subsection \<open>The sort-key flags under \<^verbatim>\<open>set_sort_key_idxes\<close>\<close>

lemma is_sort_key_set_is_sort_key: "is_sort_key (set_is_sort_key v c) = v"
  by (simp add: is_sort_key_def set_is_sort_key_def check_set_flag kIsSortKey_def)

lemma set_is_sort_key_each_ok:
  "list_all (\<lambda>idx. idx < length cols) idxs \<Longrightarrow>
   \<exists>cs. set_is_sort_key_each v idxs cols = Inr cs \<and> length cs = length cols \<and>
     (\<forall>i<length cols. is_sort_key (cs ! i) = (if i \<in> set idxs then v else is_sort_key (cols ! i)))"
proof (induction idxs arbitrary: cols)
  case Nil
  then show ?case by simp
next
  case (Cons idx rest)
  let ?cols = "cols[idx := set_is_sort_key v (cols ! idx)]"
  from Cons.prems have idx: "idx < length cols" and rest: "list_all (\<lambda>k. k < length ?cols) rest"
    by simp_all
  from Cons.IH [OF rest] obtain cs where cs: "set_is_sort_key_each v rest ?cols = Inr cs"
      "length cs = length cols"
      "\<forall>i<length cols. is_sort_key (cs ! i) = (if i \<in> set rest then v else is_sort_key (?cols ! i))"
    by auto
  have "is_sort_key (cs ! i) = (if i \<in> set (idx # rest) then v else is_sort_key (cols ! i))"
    if "i < length cols" for i
    using cs(3) that idx by (cases "i = idx") (simp_all add: is_sort_key_set_is_sort_key)
  then show ?case
    using cs(1,2) idx by simp
qed

lemma set_is_sort_key_each_fault:
  "\<not> list_all (\<lambda>idx. idx < length cols) idxs \<Longrightarrow>
   set_is_sort_key_each v idxs cols = Inl IndexOutOfRange"
  by (induction idxs arbitrary: cols) auto

lemma set_sort_key_idxes_flags:
  assumes old: "list_all (\<lambda>idx. idx < num_columns s) (sort_key_idxes s)"
    and new: "list_all (\<lambda>idx. idx < num_columns s) xs"
  shows "\<exists>s'. set_sort_key_idxes xs s = Inr s' \<and> sort_key_idxes s' = xs \<and>
           num_columns s' = num_columns s \<and>
           m_sort_key_idxes_set s' = m_sort_key_idxes_set s \<and>
           (\<forall>i<num_columns s. is_sort_key (m_cols s' ! i) =
              (i \<in> set xs \<or> i \<notin> set (sort_key_idxes s) \<and> is_sort_key (m_cols s ! i)))"
proof -
  from old obtain cleared where cleared:
    "set_is_sort_key_each False (m_sort_key_idxes s) (m_cols s) = Inr cleared"
    "length cleared = length (m_cols s)"
    "\<forall>i<length (m_cols s). is_sort_key (cleared ! i) =
        (if i \<in> set (m_sort_key_idxes s) then False else is_sort_key (m_cols s ! i))"
    using set_is_sort_key_each_ok [of "m_cols s" "m_sort_key_idxes s" False]
    by (auto simp: num_columns_def sort_key_idxes_def)
  from new cleared(2) have "list_all (\<lambda>idx. idx < length cleared) xs"
    by (simp add: num_columns_def)
  then obtain marked where marked:
    "set_is_sort_key_each True xs cleared = Inr marked"
    "length marked = length cleared"
    "\<forall>i<length cleared. is_sort_key (marked ! i) =
        (if i \<in> set xs then True else is_sort_key (cleared ! i))"
    using set_is_sort_key_each_ok [of cleared xs True] by auto
  have "set_sort_key_idxes xs s = Inr (s\<lparr>m_cols := marked, m_sort_key_idxes := xs\<rparr>)"
    by (simp add: set_sort_key_idxes_def cleared(1) marked(1))
  moreover have "is_sort_key (marked ! i) =
      (i \<in> set xs \<or> i \<notin> set (sort_key_idxes s) \<and> is_sort_key (m_cols s ! i))"
    if "i < num_columns s" for i
    using that marked(3) cleared(2,3) by (simp add: num_columns_def sort_key_idxes_def)
  ultimately show ?thesis
    using marked(2) cleared(2) by (simp add: num_columns_def sort_key_idxes_def)
qed


subsection \<open>The unchecked sub-column access\<close>

lemma subcolumn_cases:
  "subcolumn c i =
     (case m_extra_fields c of
        None \<Rightarrow> Inl NullPointerDereference
      | Some x \<Rightarrow> if i < length (ef_sub_columns x) then Inr (ef_sub_columns x ! i)
                  else Inl IndexOutOfRange)"
  by (simp add: subcolumn_def deref_def split: option.splits)

subsection \<open>The unique-id index\<close>

lemma index_columns_other:
  "uid \<notin> unique_id ` set cs \<Longrightarrow> index_columns cs i m uid = m uid"
  by (induction cs arbitrary: i m) auto

lemma index_columns_nth:
  "distinct (map unique_id cs) \<Longrightarrow> j < length cs \<Longrightarrow>
   index_columns cs i m (unique_id (cs ! j)) = Some (word_of_nat (i + j))"
proof (induction cs arbitrary: i m j)
  case Nil
  then show ?case by simp
next
  case (Cons c cs)
  show ?case
  proof (cases j)
    case 0
    from Cons.prems(1) have "unique_id c \<notin> unique_id ` set cs"
      by simp
    then show ?thesis
      using 0 by (simp add: index_columns_other)
  next
    case (Suc k)
    with Cons.prems have "distinct (map unique_id cs)" "k < length cs"
      by simp_all
    then show ?thesis
      using Suc Cons.IH [of k "i + 1"] by simp
  qed
qed

lemma sint_word_of_nat_32: "i < 2 ^ 31 \<Longrightarrow> sint (word_of_nat i :: 32 word) = int i"
  by (simp add: signed_of_nat signed_take_bit_int_eq_self)

lemma field_index_found:
  assumes "m_field_id_to_index s = index_columns (m_cols s) 0 Map.empty"
    and "unique_ids_valid (m_cols s)"
    and "i < num_columns s"
  shows "field_index s (unique_id (m_cols s ! i)) = word_of_nat i"
  using assms index_columns_nth [of "m_cols s" i 0 Map.empty]
  by (simp add: unique_ids_valid_def num_columns_def field_index_def)

lemma field_index_absent:
  assumes "m_field_id_to_index s = index_columns (m_cols s) 0 Map.empty"
    and "uid \<notin> unique_id ` set (m_cols s)"
  shows "field_index s uid = kFieldNotFound"
  using assms by (simp add: field_index_def index_columns_other)

lemma word_of_nat_32_not_minus1: "i < 2 ^ 31 \<Longrightarrow> (word_of_nat i :: 32 word) \<noteq> - 1"
proof
  assume i: "i < 2 ^ 31" and "(word_of_nat i :: 32 word) = - 1"
  then have "sint (word_of_nat i :: 32 word) = - 1"
    by simp
  then show False
    using i by (simp add: sint_word_of_nat_32)
qed

lemma unat_word_of_nat_32: "i < 2 ^ 31 \<Longrightarrow> unat (word_of_nat i :: 32 word) = i"
  by (simp add: unsigned_of_nat take_bit_nat_eq_self)

subsection \<open>Projection of the sort-key list\<close>

lemma new_ordinal_Some: "new_ordinal k xs = Some j \<Longrightarrow> j < length xs \<and> xs ! j = k"
  by (induction xs arbitrary: j) (auto split: if_splits)

lemma new_ordinal_None: "(new_ordinal k xs = None) = (k \<notin> set xs)"
  by (induction xs) auto

lemma remap_sort_key_idxes_underlying:
  "map ((!) sel) (remap_sort_key_idxes sel ks) = filter (\<lambda>k. k \<in> set sel) ks"
proof (induction ks)
  case Nil
  then show ?case by simp
next
  case (Cons k ks)
  show ?case
  proof (cases "new_ordinal k sel")
    case None
    then have "k \<notin> set sel"
      by (simp add: new_ordinal_None)
    then show ?thesis
      using None Cons.IH by simp
  next
    case (Some j)
    then have "sel ! j = k" "j < length sel"
      by (simp_all add: new_ordinal_Some)
    then have "k \<in> set sel"
      by auto
    then show ?thesis
      using Some Cons.IH \<open>sel ! j = k\<close> by simp
  qed
qed

lemma remap_sort_key_idxes_bound:
  "list_all (\<lambda>j. j < length sel) (remap_sort_key_idxes sel ks)"
  by (induction ks) (auto split: option.splits dest: new_ordinal_Some)

lemma resolve_unique_ids_found:
  assumes idx: "m_field_id_to_index base = index_columns (m_cols base) 0 Map.empty"
    and valid: "unique_ids_valid (m_cols base)"
    and small: "num_columns base < 2 ^ 31"
  shows "\<forall>u\<in>set uids. u \<in> unique_id ` set (m_cols base) \<Longrightarrow>
    \<exists>sel. resolve_unique_ids base uids = Some sel \<and> length sel = length uids \<and>
      (\<forall>n<length uids. sel ! n < num_columns base \<and>
          unique_id (m_cols base ! (sel ! n)) = uids ! n)"
proof (induction uids)
  case Nil
  then show ?case by simp
next
  case (Cons u us)
  from Cons.prems have "u \<in> unique_id ` set (m_cols base)"
    by simp
  then obtain i where i: "i < num_columns base" "unique_id (m_cols base ! i) = u"
    by (auto simp: in_set_conv_nth num_columns_def)
  have f: "field_index base u = word_of_nat i"
    using field_index_found [OF idx valid i(1)] i(2) by simp
  from i(1) small have i31: "i < 2 ^ 31"
    by simp
  have nf: "field_index base u \<noteq> kFieldNotFound"
    unfolding f kFieldNotFound_def using i31 by (rule word_of_nat_32_not_minus1)
  have un: "unat (field_index base u) = i"
    unfolding f using i31 by (rule unat_word_of_nat_32)
  from Cons obtain sel where sel: "resolve_unique_ids base us = Some sel" "length sel = length us"
      "\<forall>n<length us. sel ! n < num_columns base \<and> unique_id (m_cols base ! (sel ! n)) = us ! n"
    by auto
  have r: "resolve_unique_ids base (u # us) = Some (i # sel)"
    using nf un sel(1) by simp
  have "(i # sel) ! n < num_columns base \<and>
        unique_id (m_cols base ! ((i # sel) ! n)) = (u # us) ! n" if "n < length (u # us)" for n
    using that i sel(3) by (cases n) simp_all
  then show ?case
    using r sel(2) by simp
qed

lemma resolve_unique_ids_missing:
  assumes idx: "m_field_id_to_index base = index_columns (m_cols base) 0 Map.empty"
  shows "\<not> (\<forall>u\<in>set uids. u \<in> unique_id ` set (m_cols base)) \<Longrightarrow>
    resolve_unique_ids base uids = None"
  by (induction uids) (auto simp: field_index_absent [OF idx])

lemma selected_iff_unique_id:
  assumes valid: "unique_ids_valid (m_cols base)"
    and len: "length sel = length uids"
    and sel: "\<forall>n<length uids. sel ! n < num_columns base \<and>
          unique_id (m_cols base ! (sel ! n)) = uids ! n"
  shows "(k \<in> set sel) = (k < num_columns base \<and> unique_id (m_cols base ! k) \<in> set uids)"
proof
  assume "k \<in> set sel"
  then obtain n where n: "n < length sel" "sel ! n = k"
    unfolding in_set_conv_nth by blast
  with sel len have "k < num_columns base" "unique_id (m_cols base ! k) = uids ! n"
    by auto
  then show "k < num_columns base \<and> unique_id (m_cols base ! k) \<in> set uids"
    using n(1) len by simp
next
  assume k: "k < num_columns base \<and> unique_id (m_cols base ! k) \<in> set uids"
  then obtain n where n: "n < length uids" "uids ! n = unique_id (m_cols base ! k)"
    unfolding in_set_conv_nth by blast
  with sel have s: "sel ! n < num_columns base"
      "unique_id (m_cols base ! (sel ! n)) = unique_id (m_cols base ! k)"
    by auto
  from valid have d: "distinct (map unique_id (m_cols base))"
    by (simp add: unique_ids_valid_def)
  have e: "map unique_id (m_cols base) ! (sel ! n) = map unique_id (m_cols base) ! k"
    using s k by (simp add: num_columns_def)
  from d have "(map unique_id (m_cols base) ! (sel ! n) = map unique_id (m_cols base) ! k)
      = (sel ! n = k)"
    by (rule nth_eq_iff_index_eq) (use s(1) k in \<open>simp_all add: num_columns_def\<close>)
  with e have "sel ! n = k"
    by simp
  then show "k \<in> set sel"
    using n(1) len by (metis nth_mem)
qed

lemma create_by_ordinals:
  assumes "\<forall>i\<in>set sel. i < num_columns base"
  shows "\<exists>p. create base sel = Some p \<and>
           m_cols p = map ((!) (m_cols base)) sel \<and>
           map ((!) sel) (sort_key_idxes p) = filter (\<lambda>k. k \<in> set sel) (sort_key_idxes base) \<and>
           (\<forall>j\<in>set (sort_key_idxes p). j < num_columns p)"
proof -
  let ?keys = "remap_sort_key_idxes sel (m_sort_key_idxes base)"
  let ?cols = "map (\<lambda>i. m_cols base ! i) sel"
  let ?p = "base\<lparr>m_cols := ?cols,
                 m_num_columns := word_of_nat (length ?cols),
                 m_num_key_columns := word_of_nat (length (filter is_key ?cols)),
                 m_sort_key_idxes := ?keys,
                 m_sort_key_idxes_set := set ?keys,
                 m_field_id_to_index := index_columns ?cols 0 Map.empty\<rparr>"
  from assms have c: "create base sel = Some ?p"
    by (simp add: create_def list_all_iff Let_def)
  have k: "map ((!) sel) (sort_key_idxes ?p) = filter (\<lambda>k. k \<in> set sel) (sort_key_idxes base)"
    by (simp add: sort_key_idxes_def remap_sort_key_idxes_underlying)
  have b: "\<forall>j\<in>set (sort_key_idxes ?p). j < num_columns ?p"
    using remap_sort_key_idxes_bound [of sel "m_sort_key_idxes base"]
    by (simp add: sort_key_idxes_def num_columns_def list_all_iff)
  have m: "m_cols ?p = map ((!) (m_cols base)) sel"
    by simp
  from c k b m show ?thesis
    by blast
qed

lemma create_by_unique_ids:
  assumes idx: "m_field_id_to_index base = index_columns (m_cols base) 0 Map.empty"
    and valid: "unique_ids_valid (m_cols base)"
    and small: "num_columns base < 2 ^ 31"
    and known: "\<forall>u\<in>set uids. u \<in> unique_id ` set (m_cols base)"
  shows "\<exists>q. create_with_uid base uids = Some q \<and>
           map unique_id (m_cols q) = uids \<and>
           (\<forall>n<length uids. \<forall>i<num_columns base.
              unique_id (m_cols base ! i) = uids ! n \<longrightarrow> m_cols q ! n = m_cols base ! i) \<and>
           map (\<lambda>j. unique_id (m_cols q ! j)) (sort_key_idxes q) =
             map (\<lambda>k. unique_id (m_cols base ! k))
               (filter (\<lambda>k. k < num_columns base \<and> unique_id (m_cols base ! k) \<in> set uids)
                  (sort_key_idxes base)) \<and>
           (\<forall>j\<in>set (sort_key_idxes q). j < num_columns q)"
proof -
  from resolve_unique_ids_found [OF idx valid small known]
  obtain sel where sel: "resolve_unique_ids base uids = Some sel" "length sel = length uids"
      "\<forall>n<length uids. sel ! n < num_columns base \<and>
          unique_id (m_cols base ! (sel ! n)) = uids ! n"
    by blast
  have range: "\<forall>i\<in>set sel. i < num_columns base"
    using sel(2,3) by (auto simp: in_set_conv_nth)
  from create_by_ordinals [OF range]
  obtain q where q: "create base sel = Some q" "m_cols q = map ((!) (m_cols base)) sel"
      "map ((!) sel) (sort_key_idxes q) = filter (\<lambda>k. k \<in> set sel) (sort_key_idxes base)"
      "\<forall>j\<in>set (sort_key_idxes q). j < num_columns q"
    by blast
  have c: "create_with_uid base uids = Some q"
    using sel(1) q(1) by (simp add: create_with_uid_def)
  have ids: "map unique_id (m_cols q) = uids"
    using sel(2,3) q(2) by (simp add: list_eq_iff_nth_eq)
  from valid have d: "distinct (map unique_id (m_cols base))"
    by (simp add: unique_ids_valid_def)
  have same: "m_cols q ! n = m_cols base ! i"
    if n: "n < length uids" and i: "i < num_columns base"
      and e: "unique_id (m_cols base ! i) = uids ! n" for n i
  proof -
    from sel(3) n have s: "sel ! n < num_columns base"
        "unique_id (m_cols base ! (sel ! n)) = uids ! n"
      by simp_all
    from d have "(map unique_id (m_cols base) ! (sel ! n) = map unique_id (m_cols base) ! i)
        = (sel ! n = i)"
      by (rule nth_eq_iff_index_eq) (use s(1) i in \<open>simp_all add: num_columns_def\<close>)
    then have "sel ! n = i"
      using s i e by (simp add: num_columns_def)
    then show ?thesis
      using q(2) n sel(2) by simp
  qed
  have "map (\<lambda>j. unique_id (m_cols q ! j)) (sort_key_idxes q) =
        map (\<lambda>j. unique_id (m_cols base ! (sel ! j))) (sort_key_idxes q)"
    using q(2,4) by (simp add: num_columns_def)
  also have "\<dots> = map (\<lambda>k. unique_id (m_cols base ! k)) (map ((!) sel) (sort_key_idxes q))"
    by (simp add: comp_def)
  also have "\<dots> = map (\<lambda>k. unique_id (m_cols base ! k))
      (filter (\<lambda>k. k < num_columns base \<and> unique_id (m_cols base ! k) \<in> set uids)
         (sort_key_idxes base))"
    unfolding q(3) selected_iff_unique_id [OF valid sel(2,3)] ..
  finally have keys: "map (\<lambda>j. unique_id (m_cols q ! j)) (sort_key_idxes q) =
      map (\<lambda>k. unique_id (m_cols base ! k))
        (filter (\<lambda>k. k < num_columns base \<and> unique_id (m_cols base ! k) \<in> set uids)
           (sort_key_idxes base))" .
  from c ids same keys q(4) show ?thesis
    by blast
qed

subsection \<open>Facts about the example inputs\<close>

lemma is_sort_key_column_named: "\<not> is_sort_key (column_named n u)"
  by (simp add: is_sort_key_def check_flag_def check_flag_bits_def column_named_def kIsSortKey_def)

text \<open>
  A second \<^verbatim>\<open>set_default_value\<close> with a short string keeps the buffer of 100 bytes that
  the first one took over, and \<^verbatim>\<open>mem_usage\<close> charges it: 40 + 0 + 100.
\<close>

lemma set_default_value_keeps_buffer:
  "set_default_value example_platform example_long_string TabletColumn_default =
     Inr (put_extra_fields (Some (ExtraFields example_long_string [] True)) TabletColumn_default) \<and>
   set_default_value example_platform example_string
       (put_extra_fields (Some (ExtraFields example_long_string [] True)) TabletColumn_default) =
     Inr (put_extra_fields
            (Some (ExtraFields \<lparr>str_chars = ''0'', str_capacity = 100\<rparr> [] True))
            TabletColumn_default) \<and>
   mem_usage example_platform
       (put_extra_fields
          (Some (ExtraFields \<lparr>str_chars = ''0'', str_capacity = 100\<rparr> [] True))
          TabletColumn_default) = Inr 140"
proof -
  have "mem_usage_loop P
      (TabletColumn [] 0 0 STORAGE_AGGREGATE_NONE TYPE_UNKNOWN 0 0 0 0
         (Some (ExtraFields d [] True))) 0 acc = Inr acc" for P d acc
    by (subst mem_usage_loop.simps) (simp add: subcolumn_count_total)
  then show ?thesis
    by (simp add: set_default_value_def get_or_alloc_extra_fields_def TabletColumn_default_def
        ExtraFields_default_def deref_def move_assign_def example_platform_def example_string_def
        example_long_string_def kEmptyDefaultValue_def mem_usage_start name_def)
qed

lemma unique_id_column_named: "unique_id (column_named n u) = u"
  by (simp add: unique_id_def column_named_def)

lemma unique_id_set_flag: "unique_id (set_flag pos v c) = unique_id c"
  by (cases c) (simp add: unique_id_def set_flag_def)

section \<open>Properties of the descriptors\<close>

subsection \<open>Sort-key reassignment\<close>

text \<open>
  C1, as amended. Take a schema in which every ordinal of the current sort-key list and
  of the replacement list \<open>xs\<close> is below \<^verbatim>\<open>num_columns()\<close>, and in which every column
  that carries the is-sort-key flag is listed in the current sort-key list. Then
  \<^verbatim>\<open>set_sort_key_idxes(xs)\<close> returns, \<^verbatim>\<open>sort_key_idxes()\<close> is \<open>xs\<close>, the number of
  columns is unchanged, and for every ordinal \<open>i\<close> below it the column \<^verbatim>\<open>_cols[i]\<close> (what
  \<^verbatim>\<open>column(i)\<close> reads) has \<^verbatim>\<open>is_sort_key()\<close> true exactly when \<open>i\<close> is in \<open>xs\<close>; so no
  flag stays on a column of the old list that is not in \<open>xs\<close>.
\<close>

theorem set_sort_key_idxes_flags_consistent:
  assumes "\<forall>idx\<in>set (sort_key_idxes s). idx < num_columns s"
    and "\<forall>idx\<in>set xs. idx < num_columns s"
    and "\<forall>i<num_columns s. is_sort_key (m_cols s ! i) \<longrightarrow> i \<in> set (sort_key_idxes s)"
  shows "\<exists>s'. set_sort_key_idxes xs s = Inr s' \<and> sort_key_idxes s' = xs \<and>
           num_columns s' = num_columns s \<and>
           (\<forall>i<num_columns s'. is_sort_key (m_cols s' ! i) = (i \<in> set xs))"
proof -
  from assms(1,2) obtain s' where s': "set_sort_key_idxes xs s = Inr s'" "sort_key_idxes s' = xs"
      "num_columns s' = num_columns s"
      "\<forall>i<num_columns s. is_sort_key (m_cols s' ! i) =
          (i \<in> set xs \<or> i \<notin> set (sort_key_idxes s) \<and> is_sort_key (m_cols s ! i))"
    using set_sort_key_idxes_flags [of s xs] by (auto simp: list_all_iff)
  have "is_sort_key (m_cols s' ! i) = (i \<in> set xs)" if "i < num_columns s'" for i
    using that s'(3,4) assms(3) by auto
  then show ?thesis
    using s'(1,2,3) by simp
qed

text \<open>
  The theorem at the two-column schema whose first column is the sort key, with the
  replacement list \<open>[1]\<close>: the flag moves from column 0 to column 1.
\<close>

theorem set_sort_key_idxes_flags_consistent_witness:
  "\<exists>s'. set_sort_key_idxes [1] two_column_schema = Inr s' \<and> sort_key_idxes s' = [1] \<and>
     num_columns s' = 2 \<and> \<not> is_sort_key (m_cols s' ! 0) \<and> is_sort_key (m_cols s' ! 1)"
proof -
  have n: "num_columns two_column_schema = 2" and k: "sort_key_idxes two_column_schema = [0]"
    and c0: "m_cols two_column_schema ! 0 = set_is_sort_key True (column_named ''a'' 1)"
    and c1: "m_cols two_column_schema ! Suc 0 = column_named ''b'' 2"
    by (simp_all add: two_column_schema_def schema_of_def num_columns_def sort_key_idxes_def)
  have h1: "\<forall>idx\<in>set (sort_key_idxes two_column_schema). idx < num_columns two_column_schema"
    by (simp add: n k)
  have h2: "\<forall>idx\<in>set [1]. idx < num_columns two_column_schema"
    by (simp add: n)
  have h3: "\<forall>i<num_columns two_column_schema.
      is_sort_key (m_cols two_column_schema ! i) \<longrightarrow> i \<in> set (sort_key_idxes two_column_schema)"
    by (simp add: n k c1 is_sort_key_column_named less_Suc_eq numeral_2_eq_2)
  from set_sort_key_idxes_flags_consistent [OF h1 h2 h3]
  obtain s' where s': "set_sort_key_idxes [1] two_column_schema = Inr s'" "sort_key_idxes s' = [1]"
      "num_columns s' = num_columns two_column_schema"
      "\<forall>i<num_columns s'. is_sort_key (m_cols s' ! i) = (i \<in> set [1])"
    by blast
  from s'(3,4) n have "\<not> is_sort_key (m_cols s' ! 0)" "is_sort_key (m_cols s' ! 1)"
    by simp_all
  then show ?thesis
    using s'(1,2,3) n by simp
qed

text \<open>
  C1 as stated, without the third hypothesis, fails: a schema with one column that
  carries the flag and an empty sort-key list (a flagged column added by
  \<^verbatim>\<open>append_column\<close>, which leaves the list alone) satisfies both bounds, and after
  \<^verbatim>\<open>set_sort_key_idxes({})\<close> column 0 still has the flag although 0 is not in the list:
  the first loop only visits the columns of the old list.
\<close>

theorem set_sort_key_idxes_stale_flag_counterexample:
  "sort_key_idxes stale_flag_schema = [] \<and> num_columns stale_flag_schema = 1 \<and>
   set_sort_key_idxes [] stale_flag_schema = Inr stale_flag_schema \<and>
   is_sort_key (m_cols stale_flag_schema ! 0) \<and>
   0 \<notin> set (sort_key_idxes stale_flag_schema)"
  by (simp add: stale_flag_schema_def schema_of_def sort_key_idxes_def num_columns_def
      set_sort_key_idxes_def is_sort_key_set_is_sort_key)

text \<open>
  C3, evaluated on the code: \<^verbatim>\<open>set_sort_key_idxes\<close> assigns \<^verbatim>\<open>_sort_key_idxes\<close> and the
  column flags and never writes \<^verbatim>\<open>_sort_key_idxes_set\<close>. On the two-column schema, where
  list and set agree on \<open>{0}\<close>, the call with \<open>[1]\<close> leaves the list \<open>[1]\<close> and the set
  \<open>{0}\<close>.
\<close>

theorem set_sort_key_idxes_leaves_set_view:
  "set (m_sort_key_idxes two_column_schema) = m_sort_key_idxes_set two_column_schema \<and>
   map_sum id (\<lambda>s'. (m_sort_key_idxes s', m_sort_key_idxes_set s'))
     (set_sort_key_idxes [1] two_column_schema) = Inr ([1], {0})"
  by (simp add: two_column_schema_def schema_of_def set_sort_key_idxes_def)

subsection \<open>Projection\<close>

text \<open>
  C2. By ordinals: when every selected ordinal exists in the base schema, the projection
  returns a schema \<open>p\<close> whose columns are the selected columns in the given order; read
  back through the selection, the sort-key list of \<open>p\<close> is the base's sort-key list with
  exactly the entries of unselected columns removed, in the original order, and every
  entry of it is an ordinal of \<open>p\<close>. By unique ids: in a base schema whose unique-id index
  was filled from its columns, whose unique ids are pairwise different and which has fewer
  than \<open>2^31\<close> columns, when every selected id is the unique id of a base column, the
  projection returns a schema \<open>q\<close> whose columns carry the selected ids in the given
  order, each of them the base column with that id; the sort-key list of \<open>q\<close>, read as
  the unique ids of the columns of \<open>q\<close> it points to, is the list of the unique ids of the
  base's sort-key columns with exactly those removed whose id is not selected, in the
  original order, and every entry of it is an ordinal of \<open>q\<close>.
\<close>

theorem projection_sort_key_idxes:
  "((\<forall>i\<in>set sel. i < num_columns base) \<longrightarrow>
      (\<exists>p. create base sel = Some p \<and>
           m_cols p = map ((!) (m_cols base)) sel \<and>
           map ((!) sel) (sort_key_idxes p) = filter (\<lambda>k. k \<in> set sel) (sort_key_idxes base) \<and>
           (\<forall>j\<in>set (sort_key_idxes p). j < num_columns p))) \<and>
   (m_field_id_to_index base = index_columns (m_cols base) 0 Map.empty \<and>
    unique_ids_valid (m_cols base) \<and> num_columns base < 2 ^ 31 \<and>
    (\<forall>u\<in>set uids. u \<in> unique_id ` set (m_cols base)) \<longrightarrow>
      (\<exists>q. create_with_uid base uids = Some q \<and>
           map unique_id (m_cols q) = uids \<and>
           (\<forall>n<length uids. \<forall>i<num_columns base.
              unique_id (m_cols base ! i) = uids ! n \<longrightarrow> m_cols q ! n = m_cols base ! i) \<and>
           map (\<lambda>j. unique_id (m_cols q ! j)) (sort_key_idxes q) =
             map (\<lambda>k. unique_id (m_cols base ! k))
               (filter (\<lambda>k. k < num_columns base \<and> unique_id (m_cols base ! k) \<in> set uids)
                  (sort_key_idxes base)) \<and>
           (\<forall>j\<in>set (sort_key_idxes q). j < num_columns q)))"
proof (intro conjI impI)
  assume "\<forall>i\<in>set sel. i < num_columns base"
  then show "\<exists>p. create base sel = Some p \<and>
           m_cols p = map ((!) (m_cols base)) sel \<and>
           map ((!) sel) (sort_key_idxes p) = filter (\<lambda>k. k \<in> set sel) (sort_key_idxes base) \<and>
           (\<forall>j\<in>set (sort_key_idxes p). j < num_columns p)"
    by (rule create_by_ordinals)
next
  assume h: "m_field_id_to_index base = index_columns (m_cols base) 0 Map.empty \<and>
    unique_ids_valid (m_cols base) \<and> num_columns base < 2 ^ 31 \<and>
    (\<forall>u\<in>set uids. u \<in> unique_id ` set (m_cols base))"
  then show "\<exists>q. create_with_uid base uids = Some q \<and>
           map unique_id (m_cols q) = uids \<and>
           (\<forall>n<length uids. \<forall>i<num_columns base.
              unique_id (m_cols base ! i) = uids ! n \<longrightarrow> m_cols q ! n = m_cols base ! i) \<and>
           map (\<lambda>j. unique_id (m_cols q ! j)) (sort_key_idxes q) =
             map (\<lambda>k. unique_id (m_cols base ! k))
               (filter (\<lambda>k. k < num_columns base \<and> unique_id (m_cols base ! k) \<in> set uids)
                  (sort_key_idxes base)) \<and>
           (\<forall>j\<in>set (sort_key_idxes q). j < num_columns q)"
    using create_by_unique_ids [of base uids] by blast
qed

text \<open>
  The theorem on the schema \<open>[A(key), B, C(sort key)]\<close> with the unique ids 10, 20 and
  30: selecting the ordinals \<open>[2, 0]\<close> or the ids \<open>[30, 10]\<close> keeps the entry of C at its
  new ordinal 0; selecting \<open>[0, 1]\<close> or \<open>[10, 20]\<close> leaves the list empty.
\<close>

theorem projection_sort_key_idxes_witness:
  "(\<exists>p. create abc_schema [2, 0] = Some p \<and> sort_key_idxes p = [0]) \<and>
   (\<exists>p. create abc_schema [0, 1] = Some p \<and> sort_key_idxes p = []) \<and>
   (\<exists>q. create_with_uid abc_schema [30, 10] = Some q \<and>
        map unique_id (m_cols q) = [30, 10] \<and> sort_key_idxes q = [0]) \<and>
   (\<exists>q. create_with_uid abc_schema [10, 20] = Some q \<and>
        map unique_id (m_cols q) = [10, 20] \<and> sort_key_idxes q = [])"
proof -
  have cols: "m_cols abc_schema =
      [set_is_key True (column_named ''A'' 10), column_named ''B'' 20,
       set_is_sort_key True (column_named ''C'' 30)]"
    by (simp add: abc_schema_def schema_of_def)
  have n: "num_columns abc_schema = 3" and k: "sort_key_idxes abc_schema = [2]"
    by (simp_all add: abc_schema_def schema_of_def num_columns_def sort_key_idxes_def)
  have ids: "map unique_id (m_cols abc_schema) = [10, 20, 30]"
    by (simp add: cols set_is_key_def set_is_sort_key_def unique_id_set_flag unique_id_column_named)
  have c2: "unique_id (m_cols abc_schema ! 2) = 30"
    using ids by (simp add: cols)
  have img: "unique_id ` set (m_cols abc_schema) = {10, 20, 30}"
    using ids by (simp flip: set_map)
  have h: "m_field_id_to_index abc_schema = index_columns (m_cols abc_schema) 0 Map.empty"
      "unique_ids_valid (m_cols abc_schema)" "num_columns abc_schema < 2 ^ 31"
    by (simp_all add: unique_ids_valid_def ids n) (simp add: abc_schema_def schema_of_def)
  have o1: "\<forall>i\<in>set [2, 0]. i < num_columns abc_schema"
    and o2: "\<forall>i\<in>set [0, 1]. i < num_columns abc_schema"
    by (simp_all add: n)
  have u1: "\<forall>u\<in>set [30, 10]. u \<in> unique_id ` set (m_cols abc_schema)"
    and u2: "\<forall>u\<in>set [10, 20]. u \<in> unique_id ` set (m_cols abc_schema)"
    by (simp_all add: img)
  note t1 = projection_sort_key_idxes [of "[2, 0]" abc_schema "[30, 10]"]
  note t2 = projection_sort_key_idxes [of "[0, 1]" abc_schema "[10, 20]"]
  note a1 = t1 [THEN conjunct1, THEN mp, OF o1]
  note a2 = t2 [THEN conjunct1, THEN mp, OF o2]
  note b1 = t1 [THEN conjunct2, THEN mp, OF conjI [OF h(1) conjI [OF h(2) conjI [OF h(3) u1]]]]
  note b2 = t2 [THEN conjunct2, THEN mp, OF conjI [OF h(1) conjI [OF h(2) conjI [OF h(3) u2]]]]
  from a1 obtain p where p: "create abc_schema [2, 0] = Some p"
    "map ((!) [2, 0]) (sort_key_idxes p) = filter (\<lambda>k. k \<in> set [2, 0]) (sort_key_idxes abc_schema)"
    "\<forall>j\<in>set (sort_key_idxes p). j < num_columns p" "m_cols p = map ((!) (m_cols abc_schema)) [2, 0]"
    by (elim exE conjE)
  from p(2) obtain j where j: "sort_key_idxes p = [j]" "[2, 0] ! j = (2::nat)"
    by (auto simp: k map_eq_Cons_conv)
  from p(3,4) j(1) have "j < 2"
    by (simp add: num_columns_def)
  with j(2) have "j = 0"
    by (cases j) simp_all
  with j(1) p(1) have g1: "\<exists>p. create abc_schema [2, 0] = Some p \<and> sort_key_idxes p = [0]"
    by simp
  from a2 obtain p' where p': "create abc_schema [0, 1] = Some p'"
    "map ((!) [0, 1]) (sort_key_idxes p') = filter (\<lambda>k. k \<in> set [0, 1]) (sort_key_idxes abc_schema)"
    by (elim exE conjE)
  then have g2: "\<exists>p. create abc_schema [0, 1] = Some p \<and> sort_key_idxes p = []"
    by (simp add: k)
  from b1 obtain q where q: "create_with_uid abc_schema [30, 10] = Some q"
    "map unique_id (m_cols q) = [30, 10]"
    "map (\<lambda>j. unique_id (m_cols q ! j)) (sort_key_idxes q) =
       map (\<lambda>k. unique_id (m_cols abc_schema ! k))
         (filter (\<lambda>k. k < num_columns abc_schema \<and> unique_id (m_cols abc_schema ! k) \<in> set [30, 10])
            (sort_key_idxes abc_schema))"
    "\<forall>j\<in>set (sort_key_idxes q). j < num_columns q"
    by (elim exE conjE)
  from q(2) have lq: "length (m_cols q) = 2"
    and q0: "unique_id (m_cols q ! 0) = 30" and q1: "unique_id (m_cols q ! Suc 0) = 10"
    by (auto simp: map_eq_Cons_conv)
  from q(3) obtain i where i: "sort_key_idxes q = [i]" "unique_id (m_cols q ! i) = 30"
    by (auto simp: k n c2 map_eq_Cons_conv)
  from q(4) i(1) lq have "i < 2"
    by (simp add: num_columns_def)
  with i(2) q1 have "i = 0"
    by (cases i) auto
  with i(1) q(1,2) have g3: "\<exists>q. create_with_uid abc_schema [30, 10] = Some q \<and>
        map unique_id (m_cols q) = [30, 10] \<and> sort_key_idxes q = [0]"
    by simp
  from b2 obtain q' where q': "create_with_uid abc_schema [10, 20] = Some q'"
    "map unique_id (m_cols q') = [10, 20]"
    "map (\<lambda>j. unique_id (m_cols q' ! j)) (sort_key_idxes q') =
       map (\<lambda>k. unique_id (m_cols abc_schema ! k))
         (filter (\<lambda>k. k < num_columns abc_schema \<and> unique_id (m_cols abc_schema ! k) \<in> set [10, 20])
            (sort_key_idxes abc_schema))"
    by (elim exE conjE)
  from q'(3) have "sort_key_idxes q' = []"
    by (simp add: k n c2)
  with q'(1,2) have g4: "\<exists>q. create_with_uid abc_schema [10, 20] = Some q \<and>
        map unique_id (m_cols q) = [10, 20] \<and> sort_key_idxes q = []"
    by simp
  from g1 g2 g3 g4 show ?thesis
    by (intro conjI)
qed

subsection \<open>Lookup by unique id\<close>

text \<open>
  C7. In a schema whose unique-id index was filled from its columns, whose unique ids
  are pairwise different and which has fewer than \<open>2^31\<close> columns, \<^verbatim>\<open>field_index\<close>
  returns the ordinal \<open>i\<close> for the unique id of column \<open>i\<close>, and the not-found sentinel,
  which is negative and so no ordinal, for every id that no column has.
\<close>

theorem field_index_by_unique_id:
  assumes "m_field_id_to_index s = index_columns (m_cols s) 0 Map.empty"
    and "unique_ids_valid (m_cols s)"
    and "num_columns s < 2 ^ 31"
  shows "(\<forall>i<num_columns s.
            field_index s (unique_id (m_cols s ! i)) = word_of_nat i \<and>
            sint (field_index s (unique_id (m_cols s ! i))) = int i) \<and>
         (\<forall>uid. uid \<notin> unique_id ` set (m_cols s) \<longrightarrow>
            field_index s uid = kFieldNotFound \<and> sint (field_index s uid) = - 1)"
proof (intro conjI allI impI)
  fix i
  assume i: "i < num_columns s"
  then have "m_field_id_to_index s (unique_id (m_cols s ! i)) = Some (word_of_nat i)"
    using assms(1,2) index_columns_nth [of "m_cols s" i 0 Map.empty]
    by (simp add: unique_ids_valid_def num_columns_def)
  then show f: "field_index s (unique_id (m_cols s ! i)) = word_of_nat i"
    by (simp add: field_index_def)
  from i assms(3) have "i < 2 ^ 31"
    by simp
  then show "sint (field_index s (unique_id (m_cols s ! i))) = int i"
    unfolding f by (rule sint_word_of_nat_32)
next
  fix uid
  assume "uid \<notin> unique_id ` set (m_cols s)"
  then have "m_field_id_to_index s uid = None"
    using assms(1) by (simp add: index_columns_other)
  then show f: "field_index s uid = kFieldNotFound"
    by (simp add: field_index_def)
  show "sint (field_index s uid) = - 1"
    unfolding f by (simp add: kFieldNotFound_def)
qed

text \<open>
  The theorem on the schema with the unique ids 10, 20 and 30: each is found at its
  ordinal, and 40 is not found.
\<close>

theorem field_index_by_unique_id_witness:
  "field_index abc_schema 10 = 0 \<and> field_index abc_schema 20 = 1 \<and>
   field_index abc_schema 30 = 2 \<and> field_index abc_schema 40 = - 1"
proof -
  have cols: "m_cols abc_schema =
      [set_is_key True (column_named ''A'' 10), column_named ''B'' 20,
       set_is_sort_key True (column_named ''C'' 30)]"
    by (simp add: abc_schema_def schema_of_def)
  have ids: "map unique_id (m_cols abc_schema) = [10, 20, 30]"
    by (simp add: cols set_is_key_def set_is_sort_key_def unique_id_set_flag unique_id_column_named)
  have h1: "m_field_id_to_index abc_schema = index_columns (m_cols abc_schema) 0 Map.empty"
    by (simp add: abc_schema_def schema_of_def)
  have h2: "unique_ids_valid (m_cols abc_schema)"
    by (simp add: unique_ids_valid_def ids)
  have h3: "num_columns abc_schema < 2 ^ 31"
    by (simp add: num_columns_def cols)
  have n: "num_columns abc_schema = 3"
    by (simp add: num_columns_def cols)
  have nth: "unique_id (m_cols abc_schema ! 0) = 10" "unique_id (m_cols abc_schema ! 1) = 20"
      "unique_id (m_cols abc_schema ! 2) = 30"
    using ids by (simp_all add: cols)
  have absent: "(40 :: 32 word) \<notin> unique_id ` set (m_cols abc_schema)"
    using ids by (simp flip: set_map)
  note t = field_index_by_unique_id [OF h1 h2 h3]
  from t have found: "field_index abc_schema (unique_id (m_cols abc_schema ! i)) = word_of_nat i"
    if "i < 3" for i
    using that n by simp
  from t absent have "field_index abc_schema 40 = kFieldNotFound"
    by blast
  then show ?thesis
    using found [of 0] found [of 1] found [of 2] nth by (simp add: kFieldNotFound_def)
qed

subsection \<open>Columns without extended attributes, and memory usage\<close>

text \<open>
  C4, as amended. A column with no Extended Attributes block reports
  \<^verbatim>\<open>has_default_value() == false\<close> and \<^verbatim>\<open>subcolumn_count() == 0\<close>, and its
  \<^verbatim>\<open>mem_usage()\<close> is \<^verbatim>\<open>sizeof(TabletColumn)\<close> plus the length of its name plus the
  capacity of the shared empty string \<^verbatim>\<open>kEmptyDefaultValue\<close>, which \<^verbatim>\<open>default_value()\<close>
  returns for such a column; nothing is charged for a block.
\<close>

theorem mem_usage_without_extra_fields:
  assumes "m_extra_fields c = None"
  shows "has_default_value c = Inr False \<and> subcolumn_count c = Inr 0 \<and>
         mem_usage P c =
           Inr (int (sizeof_TabletColumn P) + int (length (name c))
                + int (str_capacity (kEmptyDefaultValue P)))"
  using assms
  by (simp add: has_default_value_total subcolumn_count_total mem_usage_start mem_usage_loop_None)

text \<open>
  The theorem at a column named \<open>ab\<close> on a platform with \<^verbatim>\<open>sizeof(TabletColumn) = 40\<close>
  and an empty-string capacity of 15: 40 + 2 + 15 bytes.
\<close>

theorem mem_usage_without_extra_fields_witness:
  "m_extra_fields (column_named ''ab'' 1) = None \<and>
   has_default_value (column_named ''ab'' 1) = Inr False \<and>
   subcolumn_count (column_named ''ab'' 1) = Inr 0 \<and>
   mem_usage example_platform (column_named ''ab'' 1) = Inr 57"
proof -
  have h: "m_extra_fields (column_named ''ab'' 1) = None"
    by (simp add: column_named_def)
  show ?thesis
    using h mem_usage_without_extra_fields [OF h, of example_platform]
    by (simp add: column_named_def example_platform_def name_def kEmptyDefaultValue_def)
qed

text \<open>
  C4 as stated fails there: the usage is not base size plus name length (42), since
  \<^verbatim>\<open>default_value().capacity()\<close> adds the 15 bytes of the empty string's buffer.
\<close>

theorem mem_usage_without_extra_fields_counterexample:
  "m_extra_fields (column_named ''ab'' 1) = None \<and>
   has_default_value (column_named ''ab'' 1) = Inr False \<and>
   subcolumn_count (column_named ''ab'' 1) = Inr 0 \<and>
   mem_usage example_platform (column_named ''ab'' 1) \<noteq>
     Inr (int (sizeof_TabletColumn example_platform) + int (length (name (column_named ''ab'' 1))))"
  by (simp add: has_default_value_total subcolumn_count_total mem_usage_start mem_usage_loop_None
      column_named_def example_platform_def name_def kEmptyDefaultValue_def)

text \<open>
  C5. \<^verbatim>\<open>TabletSchema::mem_usage()\<close> returns \<^verbatim>\<open>sizeof(TabletSchema)\<close> plus the sum of
  \<^verbatim>\<open>mem_usage()\<close> over its columns. \<^verbatim>\<open>TabletColumn::mem_usage()\<close> always returns, and
  its result is \<^verbatim>\<open>sizeof(TabletColumn)\<close> plus the name length plus the capacity of the
  default-value string plus the sum of \<^verbatim>\<open>mem_usage()\<close> over the sub-columns, each of
  which includes its own sub-columns in the same way.
\<close>

theorem schema_mem_usage_sum:
  "schema_mem_usage P s =
     Inr (int (sizeof_TabletSchema P) + sum_list (map (column_bytes P) (m_cols s))) \<and>
   mem_usage P c = Inr (column_bytes P c) \<and>
   column_bytes P c =
     int (sizeof_TabletColumn P) + int (length (name c)) +
     (case m_extra_fields c of
        None \<Rightarrow> int (str_capacity (kEmptyDefaultValue P))
      | Some x \<Rightarrow> int (str_capacity (ef_default_value x))
                 + sum_list (map (column_bytes P) (ef_sub_columns x)))"
proof (intro conjI)
  show "schema_mem_usage P s =
     Inr (int (sizeof_TabletSchema P) + sum_list (map (column_bytes P) (m_cols s)))"
    by (simp add: schema_mem_usage_def mem_usage_cols_total)
  show "mem_usage P c = Inr (column_bytes P c)"
    by (rule mem_usage_total)
  show "column_bytes P c =
     int (sizeof_TabletColumn P) + int (length (name c)) +
     (case m_extra_fields c of
        None \<Rightarrow> int (str_capacity (kEmptyDefaultValue P))
      | Some x \<Rightarrow> int (str_capacity (ef_default_value x))
                 + sum_list (map (column_bytes P) (ef_sub_columns x)))"
    by (subst column_bytes_unfold) (simp add: kEmptyDefaultValue_def split: option.splits)
qed

text \<open>
  C10. \<^verbatim>\<open>default_value()\<close> returns a string for every column and never dereferences
  an absent block: without a block it is \<^verbatim>\<open>kEmptyDefaultValue\<close>, the empty string, and
  with a block it is the block's string. \<^verbatim>\<open>has_default_value()\<close> always returns too, and
  it returns false exactly when there is no block or the block's flag is unset.
\<close>

theorem default_value_never_fails:
  "default_value P c =
     Inr (case m_extra_fields c of None \<Rightarrow> kEmptyDefaultValue P | Some x \<Rightarrow> ef_default_value x) \<and>
   str_chars (kEmptyDefaultValue P) = [] \<and>
   has_default_value c =
     Inr (case m_extra_fields c of None \<Rightarrow> False | Some x \<Rightarrow> ef_has_default_value x) \<and>
   ((has_default_value c = Inr False) =
      (m_extra_fields c = None \<or> (\<exists>x. m_extra_fields c = Some x \<and> \<not> ef_has_default_value x)))"
  by (cases "m_extra_fields c")
    (simp_all add: default_value_total has_default_value_total kEmptyDefaultValue_def)

subsection \<open>The unchecked sub-column access\<close>

text \<open>
  C9, as amended. \<^verbatim>\<open>subcolumn(i)\<close> dereferences the block pointer and indexes the
  vector without any test. With \<open>n\<close> the result of \<^verbatim>\<open>subcolumn_count()\<close>: if \<open>i < n\<close> the
  block exists and the call returns a column, so neither fault is reachable; if \<open>n \<le> i\<close>
  the call is a null-pointer dereference when no block is allocated and an out-of-range
  index into the block's vector when one is.
\<close>

theorem subcolumn_defined_iff:
  "\<exists>n. subcolumn_count c = Inr n \<and>
     (i < n \<longrightarrow> m_extra_fields c \<noteq> None \<and> (\<exists>sub. subcolumn c i = Inr sub)) \<and>
     (n \<le> i \<longrightarrow>
        subcolumn c i =
          (if m_extra_fields c = None then Inl NullPointerDereference else Inl IndexOutOfRange))"
  by (cases "m_extra_fields c") (simp_all add: subcolumn_count_total subcolumn_cases)

text \<open>
  The theorem at a column with one sub-column (index 0 is returned, index 1 is out of
  range) and at the default column (index 0 dereferences null).
\<close>

theorem subcolumn_defined_iff_witness:
  "subcolumn_count column_with_subcolumn = Inr 1 \<and>
   subcolumn column_with_subcolumn 0 = Inr (column_named ''f'' 1) \<and>
   subcolumn column_with_subcolumn 1 = Inl IndexOutOfRange \<and>
   subcolumn_count TabletColumn_default = Inr 0 \<and>
   subcolumn TabletColumn_default 0 = Inl NullPointerDereference"
  using subcolumn_defined_iff [of column_with_subcolumn 0]
    subcolumn_defined_iff [of column_with_subcolumn 1]
    subcolumn_defined_iff [of TabletColumn_default 0]
  by (simp add: column_with_subcolumn_def TabletColumn_default_def subcolumn_count_total
      subcolumn_cases)

text \<open>
  C9 as stated fails for a column with \<^verbatim>\<open>subcolumn_count() == 0\<close> that has a block:
  after \<^verbatim>\<open>set_default_value\<close> on the default column the block exists with an empty
  vector, and \<^verbatim>\<open>subcolumn(0)\<close> is an out-of-range index, not a null dereference.
\<close>

theorem subcolumn_null_counterexample:
  "set_default_value example_platform example_string TabletColumn_default = Inr column_with_default \<and>
   subcolumn_count column_with_default = Inr 0 \<and>
   subcolumn column_with_default 0 = Inl IndexOutOfRange \<and>
   subcolumn column_with_default 0 \<noteq> Inl NullPointerDereference"
  by (simp add: set_default_value_def get_or_alloc_extra_fields_def TabletColumn_default_def
      column_with_default_def ExtraFields_default_def deref_def subcolumn_count_total subcolumn_cases
      move_assign_def example_platform_def example_string_def kEmptyDefaultValue_def)

subsection \<open>The flag byte\<close>

text \<open>
  C8. Each of the eight flag mutations changes its own flag only: the values of the
  eight accessors after the call are the values before it with the one position of the
  mutated flag replaced by the written value (\<open>True\<close> for \<^verbatim>\<open>set_precision\<close> and
  \<^verbatim>\<open>set_scale\<close>, which can only set their bit).
\<close>

theorem flag_mutation_frame:
  "flag_values (set_is_key v c) = (flag_values c)[0 := v] \<and>
   flag_values (set_is_nullable v c) = (flag_values c)[1 := v] \<and>
   flag_values (set_is_bf_column v c) = (flag_values c)[2 := v] \<and>
   flag_values (set_has_bitmap_index v c) = (flag_values c)[3 := v] \<and>
   flag_values (set_precision p c) = (flag_values c)[4 := True] \<and>
   flag_values (set_scale q c) = (flag_values c)[5 := True] \<and>
   flag_values (set_is_auto_increment v c) = (flag_values c)[6 := v] \<and>
   flag_values (set_is_sort_key v c) = (flag_values c)[7 := v] \<and>
   length (flag_values c) = 8"
proof -
  note defs = flag_values_def flag_accessors_def flag_accessor_defs shift_defs check_set_flag
  have "flag_values (set_is_key v c) = (flag_values c)[0 := v]"
    by (simp add: defs set_is_key_def)
  moreover have "flag_values (set_is_nullable v c) = (flag_values c)[1 := v]"
    by (simp add: defs set_is_nullable_def)
  moreover have "flag_values (set_is_bf_column v c) = (flag_values c)[2 := v]"
    by (simp add: defs set_is_bf_column_def)
  moreover have "flag_values (set_has_bitmap_index v c) = (flag_values c)[3 := v]"
    by (simp add: defs set_has_bitmap_index_def)
  moreover have "flag_values (set_precision p c) = (flag_values c)[4 := True]"
    by (simp add: defs set_precision_def check_flag_put_precision)
  moreover have "flag_values (set_scale q c) = (flag_values c)[5 := True]"
    by (simp add: defs set_scale_def check_flag_put_scale)
  moreover have "flag_values (set_is_auto_increment v c) = (flag_values c)[6 := v]"
    by (simp add: defs set_is_auto_increment_def)
  moreover have "flag_values (set_is_sort_key v c) = (flag_values c)[7 := v]"
    by (simp add: defs set_is_sort_key_def)
  moreover have "length (flag_values c) = 8"
    by (simp add: flag_values_def flag_accessors_def)
  ultimately show ?thesis
    by (intro conjI)
qed

end
